theory Spec2Isabelle
  imports Main "HOL-Library.AList" "HOL-Library.Sublist"
begin

section \<open>The backing store\<close>

text \<open>
  The server in \<^verbatim>\<open>packages/portico-demo-server/src/data.ts\<close> keeps all of its state in
  Redis. The source's type \<^verbatim>\<open>Key\<close> lists the key families it uses; every family is
  indexed by one id and holds values of one kind (a hash or a stream), so the store is a
  record with one component per family, each a function from the id to the value.

  A Redis hash is an association list of fields, in the order the fields were first
  written. Redis has no empty hash: a hash that loses its last field is gone, and reading
  a key that is not there gives the empty reply. So the empty list is the absent key.

  Retention (\<^verbatim>\<open>pexpire\<close>) is not part of the state: it changes no content, and a key that
  expires is a key that is absent in some later state.
\<close>

type_synonym hash = "(string \<times> string) list"

type_synonym stream = "(string \<times> string list) list"

record redis =
  k_user :: "string \<Rightarrow> hash"
  k_user_events :: "string \<Rightarrow> stream"
  k_room :: "string \<Rightarrow> hash"
  k_room_connections :: "string \<Rightarrow> hash"
  k_connection :: "string \<Rightarrow> hash"
  k_connection_signal :: "string \<Rightarrow> stream"

text \<open>
  \<^verbatim>\<open>function key(...spec: Key): string { return spec.join(":"); }\<close>
  is the name under which a family member is stored.
\<close>

fun key :: "string list \<Rightarrow> string" where
  "key [] = []"
| "key [x] = x"
| "key (x # y # ys) = x @ '':'' @ key (y # ys)"

subsection \<open>The commands on a hash\<close>

definition hgetall :: "hash \<Rightarrow> hash" where
  "hgetall h = h"

definition hget :: "hash \<Rightarrow> string \<Rightarrow> string option" where
  "hget h f = map_of h f"

definition hmget :: "hash \<Rightarrow> string list \<Rightarrow> string option list" where
  "hmget h fs = map (hget h) fs"

definition hkeys :: "hash \<Rightarrow> string list" where
  "hkeys h = map fst h"

definition hset :: "hash \<Rightarrow> string \<Rightarrow> string \<Rightarrow> hash" where
  "hset h f v = AList.update f v h"

definition hmset :: "hash \<Rightarrow> (string \<times> string) list \<Rightarrow> hash" where
  "hmset h fvs = fold (\<lambda>(f, v) h'. hset h' f v) fvs h"

definition hdel :: "hash \<Rightarrow> string \<Rightarrow> hash" where
  "hdel h f = AList.delete f h"

definition exists :: "hash \<Rightarrow> bool" where
  "exists h = (h \<noteq> [])"

text \<open>
  \<^verbatim>\<open>XADD key id field value ...\<close>: the argument after the key is the entry id. Redis
  takes \<^verbatim>\<open>*\<close> or decimal \<^verbatim>\<open>ms\<close>, \<^verbatim>\<open>ms-seq\<close>, \<^verbatim>\<open>ms-*\<close> there and answers any other text
  with an error, adding nothing; the fields must come in pairs. An error reply inside a
  pipeline is one of the pipeline's results and is not raised.
\<close>

definition stream_id :: "string \<Rightarrow> bool" where
  "stream_id i = (i \<noteq> [] \<and> list_all (\<lambda>c. c \<in> set ''0123456789-*'') i)"

definition xadd :: "stream \<Rightarrow> string list \<Rightarrow> stream" where
  "xadd st args =
     (case args of
        [] \<Rightarrow> st
      | i # fvs \<Rightarrow>
          if stream_id i \<and> fvs \<noteq> [] \<and> even (length fvs) then st @ [(i, fvs)]
          else st)"

subsection \<open>Values that may be undefined\<close>

text \<open>
  A field read from the object \<^verbatim>\<open>hgetall\<close> returns is \<^verbatim>\<open>undefined\<close> when the hash has no
  such field; the source's \<^verbatim>\<open>!\<close> only silences the type checker. Both \<^verbatim>\<open>Array.join\<close>
  (in \<^verbatim>\<open>key\<close>) and the Redis client, when it writes a command argument, turn
  \<^verbatim>\<open>undefined\<close> into the empty text.
\<close>

definition js_str :: "string option \<Rightarrow> string" where
  "js_str v = (case v of None \<Rightarrow> [] | Some x \<Rightarrow> x)"

text \<open>\<^verbatim>\<open>!v\<close> on a text that may be undefined.\<close>

definition falsy :: "string option \<Rightarrow> bool" where
  "falsy v = (case v of None \<Rightarrow> True | Some x \<Rightarrow> x = [])"

section \<open>Errors and entities\<close>

text \<open>The subclasses of \<^verbatim>\<open>ResponseError\<close>, each with its message.\<close>

datatype error =
    Unauthorized string
  | Forbidden string
  | NotFound string
  | Conflict string
  | InvalidInput string

datatype Role = host | guest

definition role_str :: "Role \<Rightarrow> string" where
  "role_str r = (case r of host \<Rightarrow> ''host'' | guest \<Rightarrow> ''guest'')"

text \<open>
  \<^verbatim>\<open>User\<close> as \<^verbatim>\<open>getUser\<close> builds it from the hash. \<^verbatim>\<open>user_created\<close> is the stored text;
  the conversion \<^verbatim>\<open>date\<close> to a \<^verbatim>\<open>Date\<close> is not interpreted.
\<close>

record User =
  user_id :: "string option"
  user_name :: "string option"
  user_created :: "string option"

record RoomRef =
  ref_id :: string
  ref_slug :: string

record Session =
  session_id :: string
  session_room :: RoomRef
  session_role :: Role

text \<open>What \<^verbatim>\<open>getSession\<close> returns: \<^verbatim>\<open>{ room: string; owner: string }\<close>.\<close>

record Link =
  link_room :: "string option"
  link_owner :: "string option"

datatype UserEvent =
    register
  | create_room string
  | join_room string Role

text \<open>\<^verbatim>\<open>Object.entries<RedisValue>(event).flat(1)\<close>\<close>

definition pairs :: "UserEvent \<Rightarrow> string list" where
  "pairs event =
     (case event of
        register \<Rightarrow> [''type'', ''register'']
      | create_room i \<Rightarrow> [''type'', ''create room'', ''id'', i]
      | join_room i r \<Rightarrow> [''type'', ''join room'', ''id'', i, ''role'', role_str r])"

section \<open>ConnectedStore\<close>

text \<open>
  \<^verbatim>\<open>createUser\<close> writes the user's hash under the id that \<^verbatim>\<open>uuid()\<close> returned; \<^verbatim>\<open>created\<close>
  is the decimal text of the time of the call.
\<close>

definition createUser :: "redis \<Rightarrow> string \<Rightarrow> string \<Rightarrow> string \<Rightarrow> User \<times> redis" where
  "createUser s name id' created =
     (\<lparr>user_id = Some id', user_name = Some name, user_created = Some created\<rparr>,
      s\<lparr>k_user :=
          (k_user s)
            (id' := hmset (k_user s id') [(''id'', id'), (''name'', name), (''created'', created)])\<rparr>)"

definition getUser :: "redis \<Rightarrow> string \<Rightarrow> User option" where
  "getUser s id' =
     (let data = hgetall (k_user s id')
      in if data = [] then None
         else Some \<lparr>user_id = hget data ''id'',
                    user_name = hget data ''name'',
                    user_created = hget data ''created''\<rparr>)"

text \<open>
  \<^verbatim>\<open>addUserEvent\<close> sends \<^verbatim>\<open>xadd(key, ...pairs)\<close> in a pipeline: the first of the pairs,
  the text \<^verbatim>\<open>type\<close>, stands where the entry id is expected.
\<close>

definition addUserEvent :: "redis \<Rightarrow> string \<Rightarrow> UserEvent \<Rightarrow> redis" where
  "addUserEvent s user event =
     (if \<not> exists (k_user s user) then s
      else s\<lparr>k_user_events :=
               (k_user_events s)(user := xadd (k_user_events s user) (pairs event))\<rparr>)"

subsection \<open>createSession\<close>

text \<open>
  \<^verbatim>\<open>createSession\<close> awaits the store several times. Its reads (\<^verbatim>\<open>hmget\<close> of the room,
  \<^verbatim>\<open>hkeys\<close> of the occupancy map) and the two checks on them come first; they either
  throw or settle the role and the slug. Then come the writes: one pipeline for the
  connection record and the occupancy entry, and \<^verbatim>\<open>addUserEvent\<close>. The id is the value
  \<^verbatim>\<open>uuid()\<close> returned, an argument here.
\<close>

definition createSession_read :: "redis \<Rightarrow> string \<Rightarrow> string \<Rightarrow> error + (Role \<times> string)" where
  "createSession_read s room actor =
     (case hmget (k_room s room) [''owner'', ''slug''] of
        [Some owner, Some slug] \<Rightarrow>
          (let role = (if actor = owner then host else guest);
               conns = set (hkeys (k_room_connections s room));
               guests = Set.filter (\<lambda>i. i \<noteq> owner) conns
           in if actor \<in> conns then Inl (Conflict ''You are already in this room.'')
              else if role = guest \<and> card guests > 0
                then Inl (Conflict ''A guest is already in this room.'')
              else Inr (role, slug))
      | _ \<Rightarrow> Inl (NotFound ''Room not found''))"

definition createSession_write ::
    "redis \<Rightarrow> string \<Rightarrow> string \<Rightarrow> Role \<Rightarrow> string \<Rightarrow> string \<Rightarrow> Session \<times> redis" where
  "createSession_write s room actor role slug id' =
     (let s1 = s\<lparr>k_connection :=
                   (k_connection s)
                     (id' := hmset (k_connection s id') [(''room'', room), (''owner'', actor)])\<rparr>;
          s2 = s1\<lparr>k_room_connections :=
                    (k_room_connections s1)
                      (room := hset (k_room_connections s1 room) actor id')\<rparr>;
          s3 = addUserEvent s2 actor (join_room room role)
      in (\<lparr>session_id = id',
            session_room = \<lparr>ref_id = room, ref_slug = slug\<rparr>,
            session_role = role\<rparr>, s3))"

definition createSession :: "redis \<Rightarrow> string \<Rightarrow> string \<Rightarrow> string \<Rightarrow> error + (Session \<times> redis)" where
  "createSession s room actor id' =
     (case createSession_read s room actor of
        Inl e \<Rightarrow> Inl e
      | Inr (role, slug) \<Rightarrow> Inr (createSession_write s room actor role slug id'))"

subsection \<open>getSession and deleteSession\<close>

definition getSession :: "redis \<Rightarrow> string \<Rightarrow> Link option" where
  "getSession s id' =
     (let data = hgetall (k_connection s id')
      in if data = [] then None
         else case getUser s (js_str (hget data ''owner'')) of
                None \<Rightarrow> None
              | Some user \<Rightarrow>
                  (let link = hget (k_room_connections s (js_str (hget data ''room'')))
                                (js_str (user_id user))
                   in if link = Some id'
                      then Some \<lparr>link_room = hget data ''room'', link_owner = user_id user\<rparr>
                      else None))"

text \<open>
  \<^verbatim>\<open>deleteSession\<close> run with no other client between its commands: the transaction on
  the watched occupancy map commits. Its reply is not looked at by the source.
\<close>

definition deleteSession :: "redis \<Rightarrow> string \<Rightarrow> error + redis" where
  "deleteSession s id' =
     (let session = hgetall (k_connection s id');
          room = hget session ''room'';
          owner = hget session ''owner''
      in if falsy room \<or> falsy owner then Inl (NotFound ''Connection not found'')
         else
           (let current = hget (k_room_connections s (js_str room)) (js_str owner);
                s1 = (if current = Some id'
                      then s\<lparr>k_room_connections :=
                               (k_room_connections s)
                                 (js_str room := hdel (k_room_connections s (js_str room)) (js_str owner))\<rparr>
                      else s)
            in Inr (s1\<lparr>k_connection := (k_connection s1)(id' := []),
                       k_connection_signal := (k_connection_signal s1)(id' := [])\<rparr>)))"

subsection \<open>updateUser\<close>

text \<open>
  \<^verbatim>\<open>updateUser\<close> watches the user's key, checks that it exists and queues the write in a
  transaction. Between the check and \<^verbatim>\<open>EXEC\<close> the store serves other clients and
  expires keys: \<^verbatim>\<open>others\<close> is what they do to the store in that window, and \<^verbatim>\<open>touched\<close>
  says whether one of them wrote to the watched key, be it the same content. \<^verbatim>\<open>EXEC\<close>
  discards the queued write when the watched key was written to or is no longer what it
  was (from Redis 6.0.9 on that includes its expiry) and replies \<^verbatim>\<open>null\<close>.

  The source does not await \<^verbatim>\<open>exec()\<close>: \<^verbatim>\<open>result\<close> is the promise, whatever it will
  resolve to, and a promise is not \<^verbatim>\<open>null\<close>. The commands have been written to the
  connection by then, so every later command on it is served after them.
\<close>

datatype 'a promise = Promise 'a

definition is_null :: "'a promise \<Rightarrow> bool" where
  "is_null p = False"

definition exec_hset :: "bool \<Rightarrow> redis \<Rightarrow> string \<Rightarrow> string \<Rightarrow> redis option" where
  "exec_hset dirty s id' name =
     (if dirty then None
      else Some (s\<lparr>k_user := (k_user s)(id' := hset (k_user s id') ''name'' name)\<rparr>))"

definition ConnectedStore_updateUser ::
    "(redis \<Rightarrow> redis) \<Rightarrow> bool \<Rightarrow> redis \<Rightarrow> string \<Rightarrow> string \<Rightarrow> error + redis" where
  "ConnectedStore_updateUser others touched s id' name =
     (if \<not> exists (k_user s id') then Inl (NotFound ''User not found'')
      else
        (let s1 = others s;
             dirty = (touched \<or> k_user s1 id' \<noteq> k_user s id');
             reply = exec_hset dirty s1 id' name;
             result = Promise reply
         in if is_null result
            then Inl (Conflict ''Failed to change user name; please try again.'')
            else Inr (case reply of None \<Rightarrow> s1 | Some s2 \<Rightarrow> s2)))"

section \<open>Store\<close>

text \<open>
  \<^verbatim>\<open>Store\<close> borrows a connection from the pool for each call and runs the
  \<^verbatim>\<open>ConnectedStore\<close> method of the same name on it; only \<^verbatim>\<open>updateUser\<close> and
  \<^verbatim>\<open>forwardEvents\<close> do more.
\<close>

definition Store_createUser :: "redis \<Rightarrow> string \<Rightarrow> string \<Rightarrow> string \<Rightarrow> User \<times> redis" where
  "Store_createUser s name id' created =
     (case createUser s name id' created of
        (user, s1) \<Rightarrow> (user, addUserEvent s1 (js_str (user_id user)) register))"

definition Store_updateUser ::
    "(redis \<Rightarrow> redis) \<Rightarrow> bool \<Rightarrow> redis \<Rightarrow> string \<Rightarrow> string \<Rightarrow>
     error + (User \<times> redis)" where
  "Store_updateUser others touched s id' name =
     (case ConnectedStore_updateUser others touched s id' name of
        Inl e \<Rightarrow> Inl e
      | Inr s' \<Rightarrow>
          (case getUser s' id' of
             None \<Rightarrow> Inl (Conflict ''User no longer exists.'')
           | Some user \<Rightarrow> Inr (user, s')))"

subsection \<open>forwardEvents\<close>

text \<open>
  The entries of the two streams carry, in their field \<^verbatim>\<open>data\<close>, the JSON text of a
  \<^verbatim>\<open>StoredMessage\<close> (room stream) or of a \<^verbatim>\<open>Signal\<close> (signal stream). \<^verbatim>\<open>Stored<T>\<close>
  replaces the type of \<^verbatim>\<open>user\<close> by \<^verbatim>\<open>string\<close>, so the message type takes the type of
  that field as a parameter.
\<close>

datatype 'u Message =
    Join (msg_time: int) (msg_user: 'u) (msg_session: string) (msg_role: Role)
  | Leave (msg_time: int) (msg_user: 'u) (msg_session: string)
  | Chat (msg_time: int) (msg_user: 'u) (msg_session: string) (msg_text: string)

text \<open>
  The library's type \<^verbatim>\<open>Signal\<close>, an \<^verbatim>\<open>ICE\<close> (the new candidates and \<^verbatim>\<open>done\<close>) or an
  \<^verbatim>\<open>SDP\<close> (its description). A candidate is \<^verbatim>\<open>[attrs, media]\<close> with \<^verbatim>\<open>media\<close> either
  \<^verbatim>\<open>null\<close> or \<^verbatim>\<open>[id, index]\<close>, each of which may be \<^verbatim>\<open>null\<close>. The server relays a signal
  as it is.
\<close>

type_synonym CandidateMedia = "string option \<times> int option"

type_synonym Candidate = "string \<times> CandidateMedia option"

datatype SDPDescriptionType = offer | answer | pranswer | rollback

record SDPDescription =
  sdp_type :: SDPDescriptionType
  sdp_contents :: string

datatype Signal =
    ICE "Candidate list" bool
  | SDP SDPDescription

type_synonym StoredMessage = "string Message"

type_synonym Event = "User Message + Signal"

text \<open>
  The variables of one call of \<^verbatim>\<open>forwardEvents\<close>: the cache \<^verbatim>\<open>users\<close>, the two cursors
  and \<^verbatim>\<open>peer\<close>; \<^verbatim>\<open>sent\<close> is what has been handed to \<^verbatim>\<open>dest.send\<close>, oldest first.
\<close>

record forwarder =
  users :: "string \<Rightarrow> User option option"
  messageCursor :: string
  peer :: "string option"
  peerCursor :: string
  sent :: "Event list"

text \<open>The closure \<^verbatim>\<open>getUser\<close>: the store is asked once per id, and \<^verbatim>\<open>null\<close> is cached too.\<close>

definition cached_getUser :: "redis \<Rightarrow> forwarder \<Rightarrow> string \<Rightarrow> User option \<times> forwarder" where
  "cached_getUser s f id' =
     (case users f id' of
        None \<Rightarrow> (let user = getUser s id' in (user, f\<lparr>users := (users f)(id' \<mapsto> user)\<rparr>))
      | Some user \<Rightarrow> (user, f))"

definition send :: "forwarder \<Rightarrow> Event \<Rightarrow> forwarder" where
  "send f message = f\<lparr>sent := sent f @ [message]\<rparr>"

text \<open>\<^verbatim>\<open>{ ...data, user }\<close>\<close>

definition with_user :: "'a Message \<Rightarrow> 'b \<Rightarrow> 'b Message" where
  "with_user data user =
     (case data of
        Join t _ c r \<Rightarrow> Join t user c r
      | Leave t _ c \<Rightarrow> Leave t user c
      | Chat t _ c x \<Rightarrow> Chat t user c x)"

text \<open>The \<^verbatim>\<open>switch (data.type)\<close> of the relay loop.\<close>

definition relay :: "string \<Rightarrow> redis \<Rightarrow> forwarder \<Rightarrow> StoredMessage + Signal \<Rightarrow> forwarder" where
  "relay actor s f data =
     (case data of
        Inl m \<Rightarrow>
          (let (user, f1) = cached_getUser s f (msg_user m);
               f2 = (case user of None \<Rightarrow> f1 | Some u \<Rightarrow> send f1 (Inl (with_user m u)))
           in if is_Join m \<and> msg_user m \<noteq> actor then f2\<lparr>peer := Some (msg_session m)\<rparr>
              else if is_Leave m \<and> Some (msg_session m) = peer f2 then f2\<lparr>peer := None\<rparr>
              else f2)
      | Inr g \<Rightarrow> send f (Inr g))"

text \<open>
  \<^verbatim>\<open>for (let i = 0; i < fields.length - 1; i += 2) if (fields[i] === "data") ...\<close>
  over the flat reply \<^verbatim>\<open>[name, value, name, value, ...]\<close>.
\<close>

fun find_data :: "string list \<Rightarrow> string option" where
  "find_data (n # v # rest) = (if n = ''data'' then Some v else find_data rest)"
| "find_data _ = None"

text \<open>
  One entry \<^verbatim>\<open>[id, fields]\<close> of the stream named \<^verbatim>\<open>k\<close>. \<^verbatim>\<open>JSON.parse\<close> is the argument
  \<^verbatim>\<open>parse\<close>; it gives \<^verbatim>\<open>None\<close> where the text denotes \<^verbatim>\<open>null\<close>.
\<close>

definition consume ::
    "(string \<Rightarrow> (StoredMessage + Signal) option) \<Rightarrow> string \<Rightarrow> redis \<Rightarrow> string \<Rightarrow>
     forwarder \<Rightarrow> string \<times> string list \<Rightarrow> forwarder" where
  "consume parse actor s k f entry =
     (let f1 = (if prefix ''room:'' k then f\<lparr>messageCursor := fst entry\<rparr>
                else if prefix ''connection:'' k then f\<lparr>peerCursor := fst entry\<rparr>
                else f);
          data = (case find_data (snd entry) of None \<Rightarrow> None | Some v \<Rightarrow> parse v)
      in case data of None \<Rightarrow> f1 | Some d \<Rightarrow> relay actor s f1 d)"

text \<open>The two \<^verbatim>\<open>for\<close> loops over one reply of \<^verbatim>\<open>xread\<close>.\<close>

definition consume_result ::
    "(string \<Rightarrow> (StoredMessage + Signal) option) \<Rightarrow> string \<Rightarrow> redis \<Rightarrow>
     forwarder \<Rightarrow> (string \<times> stream) list \<Rightarrow> forwarder" where
  "consume_result parse actor s f result =
     fold (\<lambda>(k, entries) f'. fold (\<lambda>entry f''. consume parse actor s k f'' entry) entries f')
       result f"

text \<open>
  The \<^verbatim>\<open>while\<close> loop runs as long as the destination is open. Each round blocks in
  \<^verbatim>\<open>xread\<close> for at most a second; \<^verbatim>\<open>reads\<close> lists, for the rounds that were run before
  the destination closed, the reply (\<^verbatim>\<open>None\<close> when the read timed out) and the store as
  it stood while the reply was worked through.
\<close>

fun relay_loop ::
    "(string \<Rightarrow> (StoredMessage + Signal) option) \<Rightarrow> string \<Rightarrow> forwarder \<Rightarrow>
     (redis \<times> (string \<times> stream) list option) list \<Rightarrow> forwarder" where
  "relay_loop parse actor f [] = f"
| "relay_loop parse actor f ((s, None) # reads) = relay_loop parse actor f reads"
| "relay_loop parse actor f ((s, Some result) # reads) =
     relay_loop parse actor (consume_result parse actor s f result) reads"

text \<open>
  \<^verbatim>\<open>Object.entries\<close> of the object that \<^verbatim>\<open>hgetall\<close> returns. The client sets the
  properties in the order of the reply. An object lists the keys that are array indices
  first, by their value, and then the other keys in the order they were set; an array
  index is the decimal text, with no leading zero, of a number below \<^verbatim>\<open>2^32 - 1\<close>.
\<close>

definition index_of :: "string \<Rightarrow> nat" where
  "index_of k = foldl (\<lambda>n c. 10 * n + (of_char c - 48)) 0 k"

definition array_index :: "string \<Rightarrow> bool" where
  "array_index k =
     (case k of
        [] \<Rightarrow> False
      | c # cs \<Rightarrow>
          list_all (\<lambda>d. d \<in> set ''0123456789'') k \<and> (c = CHR ''0'' \<longrightarrow> cs = [])
          \<and> index_of k < 4294967295)"

definition Object_entries :: "hash \<Rightarrow> hash" where
  "Object_entries obj =
     sort_key (\<lambda>(k, v). index_of k) (filter (\<lambda>(k, v). array_index k) obj)
     @ filter (\<lambda>(k, v). \<not> array_index k) obj"

text \<open>
  Before the loop the forwarder checks that the occupancy map links \<^verbatim>\<open>actor\<close> to this
  connection, closing the destination otherwise (\<^verbatim>\<open>None\<close>), and takes the connection of
  the first other occupant among the entries as the peer.
\<close>

definition first_peer :: "hash \<Rightarrow> string \<Rightarrow> string option" where
  "first_peer conns actor =
     map_option snd (find (\<lambda>(userId, pc). userId \<noteq> actor) (Object_entries conns))"

definition forwardEvents ::
    "(string \<Rightarrow> (StoredMessage + Signal) option) \<Rightarrow> redis \<Rightarrow> string \<Rightarrow> string \<Rightarrow> string \<Rightarrow>
     (redis \<times> (string \<times> stream) list option) list \<Rightarrow> forwarder option" where
  "forwardEvents parse s room actor connection' reads =
     (let conns = hgetall (k_room_connections s room)
      in if hget conns actor \<noteq> Some connection' then None
         else Some (relay_loop parse actor
                      \<lparr>users = Map.empty, messageCursor = ''0'',
                       peer = first_peer conns actor, peerCursor = ''0'', sent = []\<rparr>
                      reads))"

section \<open>Calls in sequence and calls in flight\<close>

text \<open>
  A call of \<^verbatim>\<open>createSession\<close> (with the id that \<^verbatim>\<open>uuid()\<close> gives it) or of
  \<^verbatim>\<open>deleteSession\<close>. Both throw before they have written anything, so a call that
  throws leaves the store as it found it.
\<close>

datatype call = CreateSession string string string | DeleteSession string

fun perform :: "redis \<Rightarrow> call \<Rightarrow> redis" where
  "perform s (CreateSession room actor id') =
     (case createSession s room actor id' of Inl e \<Rightarrow> s | Inr (session, s') \<Rightarrow> s')"
| "perform s (DeleteSession id') =
     (case deleteSession s id' of Inl e \<Rightarrow> s | Inr s' \<Rightarrow> s')"

definition perform_all :: "redis \<Rightarrow> call list \<Rightarrow> redis" where
  "perform_all s calls = foldl perform s calls"

text \<open>
  Two requests are served at once when each holds a connection of the pool: the store
  serves their commands one at a time, in the order they arrive. A call of
  \<^verbatim>\<open>createSession\<close> in flight has either not read yet, or has read and passed the checks
  and not written yet, or is done. \<^verbatim>\<open>advance\<close> lets one call take its next step, and a
  schedule names the call that moves at each turn.
\<close>

datatype task =
    Pending string string string
  | Checked string string Role string string
  | Done "error + Session"

fun advance :: "redis \<Rightarrow> task \<Rightarrow> task \<times> redis" where
  "advance s (Pending room actor id') =
     (case createSession_read s room actor of
        Inl e \<Rightarrow> (Done (Inl e), s)
      | Inr (role, slug) \<Rightarrow> (Checked room actor role slug id', s))"
| "advance s (Checked room actor role slug id') =
     (case createSession_write s room actor role slug id' of
        (session, s') \<Rightarrow> (Done (Inr session), s'))"
| "advance s (Done r) = (Done r, s)"

fun schedule :: "nat list \<Rightarrow> task list \<times> redis \<Rightarrow> task list \<times> redis" where
  "schedule [] c = c"
| "schedule (n # ns) (tasks, s) =
     (if n < length tasks
      then (case advance s (tasks ! n) of (t, s') \<Rightarrow> schedule ns (tasks[n := t], s'))
      else schedule ns (tasks, s))"

section \<open>What the properties speak of\<close>

text \<open>The occupancy map of a room, split by the room's owner.\<close>

definition occupancy :: "redis \<Rightarrow> string \<Rightarrow> hash" where
  "occupancy s room = hgetall (k_room_connections s room)"

definition hosts :: "redis \<Rightarrow> string \<Rightarrow> hash" where
  "hosts s room =
     filter (\<lambda>(userId, c). Some userId = hget (k_room s room) ''owner'') (occupancy s room)"

definition guests :: "redis \<Rightarrow> string \<Rightarrow> hash" where
  "guests s room =
     filter (\<lambda>(userId, c). Some userId \<noteq> hget (k_room s room) ''owner'') (occupancy s room)"

text \<open>
  The map has no key twice and at most one guest. This is what each call keeps; the bound
  on the hosts follows from the first half.
\<close>

definition occupancy_ok :: "redis \<Rightarrow> string \<Rightarrow> bool" where
  "occupancy_ok s room =
     (distinct (hkeys (occupancy s room)) \<and> length (guests s room) \<le> 1)"

text \<open>
  \<^verbatim>\<open>createSession\<close> takes the room for absent when the room's hash has no owner or no
  slug. \<^verbatim>\<open>createRoom\<close> writes both with one command, so that is the hash being absent.
\<close>

definition room_absent :: "redis \<Rightarrow> string \<Rightarrow> bool" where
  "room_absent s room =
     (hget (k_room s room) ''owner'' = None \<or> hget (k_room s room) ''slug'' = None)"

definition is_Conflict :: "error + 'a \<Rightarrow> bool" where
  "is_Conflict r = (case r of Inl (Conflict m) \<Rightarrow> True | _ \<Rightarrow> False)"

definition is_NotFound :: "error + 'a \<Rightarrow> bool" where
  "is_NotFound r = (case r of Inl (NotFound m) \<Rightarrow> True | _ \<Rightarrow> False)"

text \<open>Every user record is stored under the id it carries.\<close>

definition user_keyed :: "redis \<Rightarrow> bool" where
  "user_keyed s = (\<forall>u. k_user s u = [] \<or> hget (k_user s u) ''id'' = Some u)"

text \<open>The forwarder resolves a user when its cached lookup gives a user and not \<^verbatim>\<open>null\<close>.\<close>

definition resolves :: "redis \<Rightarrow> forwarder \<Rightarrow> string \<Rightarrow> bool" where
  "resolves s f id' = (fst (cached_getUser s f id') \<noteq> None)"

section \<open>Example stores\<close>

text \<open>Two registered users and Alice's room, nobody in it.\<close>

definition demo :: redis where
  "demo =
     \<lparr>k_user = (\<lambda>u. if u = ''alice''
                     then [(''id'', ''alice''), (''name'', ''Alice''), (''created'', ''1'')]
                     else if u = ''bob''
                     then [(''id'', ''bob''), (''name'', ''Bob''), (''created'', ''2'')]
                     else []),
      k_user_events = (\<lambda>u. []),
      k_room = (\<lambda>r. if r = ''r1''
                     then [(''id'', ''r1''), (''slug'', ''brave-otter''), (''created'', ''3''),
                           (''owner'', ''alice'')]
                     else []),
      k_room_connections = (\<lambda>r. []),
      k_connection = (\<lambda>c. []),
      k_connection_signal = (\<lambda>c. [])\<rparr>"

text \<open>Bob has joined as the guest, then Alice as the host.\<close>

definition joined :: redis where
  "joined =
     perform_all demo [CreateSession ''r1'' ''bob'' ''c1'', CreateSession ''r1'' ''alice'' ''c2'']"

text \<open>
  Bob's client has sent the join request twice and both were in flight together: the
  second write replaced the first in the occupancy map, and the record of \<^verbatim>\<open>c1\<close> is
  still there.
\<close>

definition superseded :: redis where
  "superseded =
     snd (schedule [0, 1, 0, 1]
            ([Pending ''r1'' ''bob'' ''c1'', Pending ''r1'' ''bob'' ''c2''], demo))"

text \<open>Bob's user record has expired while he is in the room.\<close>

definition bob_expired :: redis where
  "bob_expired = joined\<lparr>k_user := (k_user joined)(''bob'' := [])\<rparr>"

text \<open>What other clients do between two commands of a call: nothing, or Bob's record expires.\<close>

definition nothing :: "redis \<Rightarrow> redis" where
  "nothing s = s"

definition bob_expires :: "redis \<Rightarrow> redis" where
  "bob_expires s = s\<lparr>k_user := (k_user s)(''bob'' := [])\<rparr>"

text \<open>Three payloads of the room stream, and a forwarder of Bob's whose peer is Alice.\<close>

definition parse_demo :: "string \<Rightarrow> (StoredMessage + Signal) option" where
  "parse_demo v =
     (if v = ''join by carol'' then Some (Inl (Join 10 ''carol'' ''c3'' guest))
      else if v = ''leave by alice'' then Some (Inl (Leave 11 ''alice'' ''c2''))
      else if v = ''chat by alice'' then Some (Inl (Chat 12 ''alice'' ''c2'' ''hello''))
      else None)"

definition entry_demo :: "string \<Rightarrow> string \<times> string list" where
  "entry_demo v = (''1700000000000-0'', [''type'', ''x'', ''time'', ''10'', ''data'', v])"

definition bobs_forwarder :: forwarder where
  "bobs_forwarder =
     \<lparr>users = Map.empty, messageCursor = ''0'', peer = Some ''c2'', peerCursor = ''0'',
      sent = []\<rparr>"

section \<open>Properties\<close>

subsection \<open>The commands and the writes of a call\<close>

lemmas store_defs = hgetall_def hget_def hmget_def hkeys_def hset_def hmset_def hdel_def
  exists_def js_str_def falsy_def stream_id_def xadd_def role_str_def pairs_def

lemmas call_defs = getUser_def addUserEvent_def createSession_read_def createSession_write_def
  createSession_def getSession_def deleteSession_def perform_all_def

text \<open>
  The families of \<^verbatim>\<open>Key\<close> that share a root have different names as long as an id holds
  no colon, as the ids of \<^verbatim>\<open>uuid()\<close> do; names with different roots differ in their
  first letters. This is what lets the store keep each family apart.
\<close>

lemma key_families_apart:
  assumes "CHR '':'' \<notin> set a"
  shows "key [''room'', a] \<noteq> key [''room'', b, ''connections'']"
    and "key [''room'', a] \<noteq> key [''room'', b, ''messages'']"
    and "key [''connection'', a] \<noteq> key [''connection'', b, ''signal'']"
    and "key [''user'', a] \<noteq> key [''user'', b, ''events'']"
  using assms by auto

lemma key_roots_apart:
  "key (''room'' # x) \<noteq> key (''connection'' # y)"
  "key (''room'' # x) \<noteq> key (''user'' # y)"
  "key (''connection'' # x) \<noteq> key (''user'' # y)"
  by (cases x; cases y; simp)+

lemma stream_names:
  "prefix ''room:'' (key [''room'', room, ''messages''])"
  "prefix ''connection:'' (key [''connection'', c, ''signal''])"
  "\<not> prefix ''room:'' (key [''connection'', c, ''signal''])"
  by (simp_all add: prefix_def)

text \<open>
  Keys that are not array indices, as the ids of \<^verbatim>\<open>uuid()\<close>, are listed as they were
  written; an array index comes first.
\<close>

lemma Object_entries_plain:
  assumes "list_all (\<lambda>(k, v). \<not> array_index k) obj"
  shows "Object_entries obj = obj"
proof -
  from assms have "filter (\<lambda>(k, v). array_index k) obj = []"
    by (auto simp: filter_empty_conv list_all_iff)
  moreover from assms have "filter (\<lambda>(k, v). \<not> array_index k) obj = obj"
    by (auto simp: filter_id_conv list_all_iff)
  ultimately show ?thesis by (simp add: Object_entries_def)
qed

lemma Object_entries_indices_first:
  "Object_entries [(''bob'', ''c1''), (''12'', ''c2''), (''7'', ''c3'')] =
     [(''7'', ''c3''), (''12'', ''c2''), (''bob'', ''c1'')]"
  by (simp add: Object_entries_def array_index_def index_of_def)

lemma card_filter_pos: "(0 < card {a \<in> set xs. P a}) = (\<exists>a\<in>set xs. P a)"
  by (auto simp: card_gt_0_iff)

lemma read_absent: "room_absent s room \<Longrightarrow> createSession_read s room actor = Inl (NotFound ''Room not found'')"
  by (auto simp: room_absent_def createSession_read_def hmget_def split: option.splits)

lemma read_present:
  assumes "hget (k_room s room) ''owner'' = Some owner" "hget (k_room s room) ''slug'' = Some slug"
  shows "createSession_read s room actor =
     (if actor \<in> set (hkeys (k_room_connections s room)) then Inl (Conflict ''You are already in this room.'')
      else if actor \<noteq> owner \<and> (\<exists>u\<in>set (hkeys (k_room_connections s room)). u \<noteq> owner)
        then Inl (Conflict ''A guest is already in this room.'')
      else Inr (if actor = owner then host else guest, slug))"
  using assms by (simp add: createSession_read_def hmget_def Let_def card_filter_pos)

lemma hget_hset_same: "hget (hset h f v) f = Some v"
  by (simp add: hget_def hset_def update_conv')

lemma hget_hset_other: "f' \<noteq> f \<Longrightarrow> hget (hset h f v) f' = hget h f'"
  by (simp add: hget_def hset_def update_conv')

lemma addUserEvent_adds_nothing: "addUserEvent s user event = s"
  by (cases event) (simp_all add: addUserEvent_def xadd_def pairs_def stream_id_def)

lemma addUserEvent_other [simp]:
  "k_user (addUserEvent s u e) = k_user s"
  "k_room (addUserEvent s u e) = k_room s"
  "k_room_connections (addUserEvent s u e) = k_room_connections s"
  "k_connection (addUserEvent s u e) = k_connection s"
  "k_connection_signal (addUserEvent s u e) = k_connection_signal s"
  by (simp_all add: addUserEvent_def)

lemma write_effect:
  assumes "createSession_write s room actor role slug id' = (session, s')"
  shows "session = \<lparr>session_id = id', session_room = \<lparr>ref_id = room, ref_slug = slug\<rparr>, session_role = role\<rparr>"
    and "k_room_connections s' = (k_room_connections s)(room := hset (k_room_connections s room) actor id')"
    and "k_connection s' = (k_connection s)(id' := hmset (k_connection s id') [(''room'', room), (''owner'', actor)])"
    and "k_room s' = k_room s" and "k_user s' = k_user s" and "k_connection_signal s' = k_connection_signal s"
  using assms by (auto simp: createSession_write_def Let_def)

lemma deleteSession_rooms: "deleteSession s id' = Inr s' \<Longrightarrow> k_room s' = k_room s"
  by (auto simp: deleteSession_def Let_def split: if_splits)

lemma createSession_rooms: "createSession s room actor id' = Inr (session, s') \<Longrightarrow> k_room s' = k_room s"
  by (auto simp: createSession_def createSession_write_def Let_def split: sum.splits)

lemma perform_rooms: "k_room (perform s c) = k_room s"
  by (cases c) (auto split: sum.splits dest: deleteSession_rooms createSession_rooms)

lemma perform_all_rooms: "k_room (perform_all s calls) = k_room s"
  unfolding perform_all_def by (induction calls arbitrary: s) (simp_all add: perform_rooms)

lemma guests_keys:
  "map fst (guests s room) = filter (\<lambda>u. Some u \<noteq> hget (k_room s room) ''owner'') (hkeys (occupancy s room))"
  by (simp add: guests_def hkeys_def filter_map comp_def case_prod_unfold)

lemma length_guests:
  "length (guests s room) = length (filter (\<lambda>u. Some u \<noteq> hget (k_room s room) ''owner'') (hkeys (occupancy s room)))"
  using arg_cong [OF guests_keys, of length s room] by simp

lemma hkeys_hset: "f \<notin> set (hkeys h) \<Longrightarrow> hkeys (hset h f v) = hkeys h @ [f]"
  by (simp add: hkeys_def hset_def update_keys)

lemma hkeys_hdel: "hkeys (hdel h f) = removeAll f (hkeys h)"
  by (simp add: hkeys_def hdel_def delete_keys)

lemma length_filter_removeAll: "length (filter P (removeAll x xs)) \<le> length (filter P xs)"
  by (induction xs) auto

lemma createSession_ok:
  assumes ok: "occupancy_ok s r" and c: "createSession s room actor id' = Inr (session, s')"
  shows "occupancy_ok s' r"
proof (cases "r = room")
  case False
  with c have "k_room_connections s' r = k_room_connections s r" "k_room s' = k_room s"
    by (auto simp: createSession_def createSession_write_def Let_def split: sum.splits)
  with ok show ?thesis by (simp add: occupancy_ok_def guests_def occupancy_def)
next
  case True
  from c obtain role slug where rd: "createSession_read s room actor = Inr (role, slug)"
    and w: "createSession_write s room actor role slug id' = (session, s')"
    by (auto simp: createSession_def split: sum.splits)
  from rd have pres: "\<not> room_absent s room"
    using read_absent [of s room actor] by auto
  then obtain owner sl where o: "hget (k_room s room) ''owner'' = Some owner"
    and sl: "hget (k_room s room) ''slug'' = Some sl" by (auto simp: room_absent_def)
  from rd have notin: "actor \<notin> set (hkeys (k_room_connections s room))"
    and cap: "actor = owner \<or> \<not> (\<exists>u\<in>set (hkeys (k_room_connections s room)). u \<noteq> owner)"
    by (auto simp: read_present [OF o sl] split: if_splits)
  note eff = write_effect [OF w]
  have keys: "hkeys (occupancy s' room) = hkeys (occupancy s room) @ [actor]"
    using notin by (simp add: eff occupancy_def hgetall_def hkeys_hset)
  have d: "distinct (hkeys (occupancy s' room))"
    using ok notin True unfolding keys by (simp add: occupancy_ok_def occupancy_def hgetall_def)
  have g: "length (guests s' room) \<le> 1"
  proof (cases "actor = owner")
    case True
    then show ?thesis using ok \<open>r = room\<close> 
      by (simp add: length_guests keys eff o occupancy_ok_def)
  next
    case False
    with cap have "filter (\<lambda>u. u \<noteq> owner) (hkeys (occupancy s room)) = []"
      by (auto simp: filter_empty_conv occupancy_def hgetall_def)
    then show ?thesis by (simp add: length_guests keys eff o)
  qed
  from d g True show ?thesis by (simp add: occupancy_ok_def)
qed

lemma deleteSession_ok:
  assumes ok: "occupancy_ok s r" and c: "deleteSession s id' = Inr s'"
  shows "occupancy_ok s' r"
proof -
  have rooms: "k_room s' = k_room s" by (rule deleteSession_rooms [OF c])
  from c consider "k_room_connections s' = k_room_connections s"
    | room owner where "k_room_connections s' = (k_room_connections s)(room := hdel (k_room_connections s room) owner)"
    by (auto simp: deleteSession_def Let_def split: if_splits)
  then show ?thesis
  proof cases
    case 1
    with ok rooms show ?thesis by (simp add: occupancy_ok_def guests_def occupancy_def)
  next
    case (2 room owner)
    show ?thesis
    proof (cases "r = room")
      case False
      with 2 ok rooms show ?thesis by (simp add: occupancy_ok_def guests_def occupancy_def)
    next
      case True
      have keys: "hkeys (occupancy s' room) = removeAll owner (hkeys (occupancy s room))"
        by (simp add: 2 occupancy_def hgetall_def hkeys_hdel)
      have "length (guests s' room) \<le> length (guests s room)"
        by (simp add: length_guests keys rooms length_filter_removeAll)
      with ok True show ?thesis
        by (simp add: occupancy_ok_def keys distinct_removeAll)
    qed
  qed
qed

lemma perform_ok: "occupancy_ok s r \<Longrightarrow> occupancy_ok (perform s c) r"
  by (cases c) (auto split: sum.splits intro: createSession_ok deleteSession_ok)

lemma perform_all_ok: "occupancy_ok s r \<Longrightarrow> occupancy_ok (perform_all s calls) r"
  unfolding perform_all_def by (induction calls arbitrary: s) (simp_all add: perform_ok)

lemma length_hosts_guests: "length (occupancy s room) = length (hosts s room) + length (guests s room)"
  unfolding hosts_def guests_def
  using sum_length_filter_compl [of "\<lambda>(userId, c). Some userId = hget (k_room s room) ''owner''" "occupancy s room"]
  by (simp add: case_prod_unfold)

lemma distinct_length_filter_eq: "distinct xs \<Longrightarrow> length (filter (\<lambda>u. Some u = v) xs) \<le> 1"
  by (induction xs) (auto simp: filter_empty_conv)

lemma length_hosts:
  assumes "distinct (hkeys (occupancy s room))"
  shows "length (hosts s room) \<le> 1"
proof -
  have "map fst (hosts s room) = filter (\<lambda>u. Some u = hget (k_room s room) ''owner'') (hkeys (occupancy s room))"
    by (simp add: hosts_def hkeys_def filter_map comp_def case_prod_unfold)
  from arg_cong [OF this, of length] distinct_length_filter_eq [OF assms] show ?thesis
    by simp
qed

subsection \<open>The example stores\<close>

lemma joined_occ: "k_room_connections joined = (\<lambda>r. [])(''r1'' := [(''bob'', ''c1''), (''alice'', ''c2'')])"
  by (simp add: joined_def demo_def call_defs store_defs Let_def)

lemma joined_conn: "k_connection joined = (\<lambda>r. [])(''c1'' := [(''room'', ''r1''), (''owner'', ''bob'')], ''c2'' := [(''room'', ''r1''), (''owner'', ''alice'')])"
  by (simp add: joined_def demo_def call_defs store_defs Let_def)

lemma joined_user: "k_user joined = k_user demo"
  by (simp add: joined_def demo_def call_defs store_defs Let_def)

lemma joined_room: "k_room joined = k_room demo"
  by (simp add: joined_def perform_all_rooms)

lemma superseded_occ: "k_room_connections superseded = (\<lambda>r. [])(''r1'' := [(''bob'', ''c2'')])"
  by (simp add: superseded_def demo_def call_defs store_defs Let_def)

lemma superseded_conn: "k_connection superseded = (\<lambda>r. [])(''c1'' := [(''room'', ''r1''), (''owner'', ''bob'')], ''c2'' := [(''room'', ''r1''), (''owner'', ''bob'')])"
  by (simp add: superseded_def demo_def call_defs store_defs Let_def)

lemma superseded_user: "k_user superseded = k_user demo"
  by (simp add: superseded_def demo_def call_defs store_defs Let_def)

subsection \<open>Occupancy\<close>

text \<open>
  C1. Start from a store in which the occupancy map of a room is empty and perform any
  calls of \<^verbatim>\<open>createSession\<close> and \<^verbatim>\<open>deleteSession\<close>, one after the other. The room's map
  then holds at most two entries: at most one under the room's owner (the host) and at
  most one under any other user (the guest).
\<close>

theorem occupancy_invariant:
  assumes "occupancy s room = []"
  shows "length (occupancy (perform_all s calls) room) \<le> 2
       \<and> length (hosts (perform_all s calls) room) \<le> 1
       \<and> length (guests (perform_all s calls) room) \<le> 1"
proof -
  from assms have "occupancy_ok s room" by (simp add: occupancy_ok_def guests_def hkeys_def)
  then have ok: "occupancy_ok (perform_all s calls) room" by (rule perform_all_ok)
  then have h: "length (hosts (perform_all s calls) room) \<le> 1"
    unfolding occupancy_ok_def by (intro length_hosts) simp
  from ok have g: "length (guests (perform_all s calls) room) \<le> 1"
    by (simp add: occupancy_ok_def)
  from h g show ?thesis by (simp add: length_hosts_guests)
qed

theorem occupancy_invariant_witness:
  "occupancy demo ''r1'' = [] \<and>
   length (occupancy (perform_all demo
       [CreateSession ''r1'' ''bob'' ''c1'', CreateSession ''r1'' ''alice'' ''c2'',
        CreateSession ''r1'' ''carol'' ''c3'', DeleteSession ''c1'',
        CreateSession ''r1'' ''carol'' ''c4'']) ''r1'') \<le> 2 \<and>
   length (hosts (perform_all demo
       [CreateSession ''r1'' ''bob'' ''c1'', CreateSession ''r1'' ''alice'' ''c2'',
        CreateSession ''r1'' ''carol'' ''c3'', DeleteSession ''c1'',
        CreateSession ''r1'' ''carol'' ''c4'']) ''r1'') \<le> 1 \<and>
   length (guests (perform_all demo
       [CreateSession ''r1'' ''bob'' ''c1'', CreateSession ''r1'' ''alice'' ''c2'',
        CreateSession ''r1'' ''carol'' ''c3'', DeleteSession ''c1'',
        CreateSession ''r1'' ''carol'' ''c4'']) ''r1'') \<le> 1"
proof -
  have e: "occupancy demo ''r1'' = []" by (simp add: occupancy_def hgetall_def demo_def)
  from e occupancy_invariant [OF e] show ?thesis by blast
qed

text \<open>
  Taking the two steps of a call one after the other is \<^verbatim>\<open>createSession\<close>.
\<close>

lemma advance_twice:
  "(case advance s (Pending room actor id') of (t, s1) \<Rightarrow> advance s1 t) =
     (case createSession s room actor id' of
        Inl e \<Rightarrow> (Done (Inl e), s)
      | Inr (session, s') \<Rightarrow> (Done (Inr session), s'))"
  by (auto simp: createSession_def split: sum.splits prod.splits)

text \<open>
  C2. The specification asks that the checks of \<^verbatim>\<open>createSession\<close> and its writes are one atomic
  step, so that of two guests who join at once at most one is admitted. The code reads
  with \<^verbatim>\<open>hmget\<close> and \<^verbatim>\<open>hkeys\<close>, and writes later with a plain pipeline; the \<^verbatim>\<open>watch\<close> on
  the occupancy map is commented out. With Bob's and Carol's requests in flight
  together, both read the empty map before either writes: both are admitted as guests and
  the room has two guests.
\<close>

theorem createSession_race:
  "(case schedule [0, 1, 0, 1]
           ([Pending ''r1'' ''bob'' ''c1'', Pending ''r1'' ''carol'' ''c2''], demo) of
      (tasks, s) \<Rightarrow>
        map (\<lambda>t. case t of
                    Done (Inr session) \<Rightarrow> Some (session_id session, session_role session)
                  | _ \<Rightarrow> None) tasks
          = [Some (''c1'', guest), Some (''c2'', guest)]
        \<and> guests s ''r1'' = [(''bob'', ''c1''), (''carol'', ''c2'')]
        \<and> \<not> length (guests s ''r1'') \<le> 1)"
  by (simp add: demo_def call_defs store_defs guests_def occupancy_def Let_def)

subsection \<open>createSession\<close>

text \<open>
  C4. \<^verbatim>\<open>createSession\<close> checks in this order. If the room is absent it fails with
  NotFound. Otherwise it fails with Conflict if the actor already has an entry in the
  room's occupancy map, and it fails with Conflict if the actor is not the room's owner
  and the map has an entry of a user who is not the owner. In every other case it
  succeeds: the connection record under the new id names the room and the actor, and
  the occupancy map links the actor to the new id.
\<close>

theorem createSession_outcomes:
  "(room_absent s room \<longrightarrow> is_NotFound (createSession s room actor id')) \<and>
   (\<not> room_absent s room \<and> hget (occupancy s room) actor \<noteq> None
      \<longrightarrow> is_Conflict (createSession s room actor id')) \<and>
   (\<not> room_absent s room \<and> Some actor \<noteq> hget (k_room s room) ''owner'' \<and> guests s room \<noteq> []
      \<longrightarrow> is_Conflict (createSession s room actor id')) \<and>
   (\<not> room_absent s room \<and> hget (occupancy s room) actor = None
      \<and> (Some actor = hget (k_room s room) ''owner'' \<or> guests s room = [])
      \<longrightarrow> (\<exists>session s'. createSession s room actor id' = Inr (session, s')
            \<and> session_id session = id'
            \<and> hget (k_connection s' id') ''room'' = Some room
            \<and> hget (k_connection s' id') ''owner'' = Some actor
            \<and> hget (occupancy s' room) actor = Some id'))"
proof (cases "room_absent s room")
  case True
  then show ?thesis by (simp add: createSession_def read_absent is_NotFound_def)
next
  case False
  then obtain owner slug where
    o: "hget (k_room s room) ''owner'' = Some owner" and sl: "hget (k_room s room) ''slug'' = Some slug"
    by (auto simp: room_absent_def)
  have keys: "(hget (occupancy s room) actor \<noteq> None) = (actor \<in> set (hkeys (k_room_connections s room)))"
    by (simp add: occupancy_def hgetall_def hget_def hkeys_def map_of_eq_None_iff)
  have gs: "(guests s room \<noteq> []) = (\<exists>u\<in>set (hkeys (k_room_connections s room)). u \<noteq> owner)"
    by (force simp: guests_def occupancy_def hgetall_def hkeys_def o filter_empty_conv)
  obtain session s' where w: "createSession_write s room actor (if actor = owner then host else guest) slug id' = (session, s')"
    by (cases "createSession_write s room actor (if actor = owner then host else guest) slug id'") 
  note eff = write_effect [OF w]
  have conn: "hget (k_connection s' id') ''room'' = Some room \<and> hget (k_connection s' id') ''owner'' = Some actor"
    by (simp add: eff hmset_def hget_hset_same hget_hset_other)
  have occ: "hget (occupancy s' room) actor = Some id'"
    by (simp add: eff occupancy_def hgetall_def hget_hset_same)
  show ?thesis
    using False keys gs conn occ
    by (auto simp: createSession_def read_present [OF o sl] o is_Conflict_def w eff(1))
qed

theorem createSession_outcomes_witness:
  "is_NotFound (createSession joined ''r2'' ''bob'' ''c3'') \<and>
   is_Conflict (createSession joined ''r1'' ''bob'' ''c3'') \<and>
   is_Conflict (createSession joined ''r1'' ''carol'' ''c3'') \<and>
   (\<exists>session s'. createSession demo ''r1'' ''bob'' ''c1'' = Inr (session, s')
      \<and> session_id session = ''c1''
      \<and> hget (k_connection s' ''c1'') ''room'' = Some ''r1''
      \<and> hget (k_connection s' ''c1'') ''owner'' = Some ''bob''
      \<and> hget (occupancy s' ''r1'') ''bob'' = Some ''c1'')"
proof -
  have 1: "room_absent joined ''r2''"
    by (simp add: room_absent_def joined_room demo_def hget_def)
  have 2: "\<not> room_absent joined ''r1'' \<and> hget (occupancy joined ''r1'') ''bob'' \<noteq> None"
    by (simp add: room_absent_def joined_room joined_occ occupancy_def demo_def hget_def hgetall_def)
  have 3: "\<not> room_absent joined ''r1'' \<and> Some ''carol'' \<noteq> hget (k_room joined ''r1'') ''owner''
           \<and> guests joined ''r1'' \<noteq> []"
    by (simp add: room_absent_def joined_room joined_occ guests_def occupancy_def demo_def hget_def hgetall_def)
  have 4: "\<not> room_absent demo ''r1'' \<and> hget (occupancy demo ''r1'') ''bob'' = None
           \<and> (Some ''bob'' = hget (k_room demo ''r1'') ''owner'' \<or> guests demo ''r1'' = [])"
    by (simp add: room_absent_def guests_def occupancy_def demo_def hget_def hgetall_def)
  have a: "is_NotFound (createSession joined ''r2'' ''bob'' ''c3'')"
    using 1 createSession_outcomes [of joined "''r2''" "''bob''" "''c3''"] by (elim conjE) simp
  have b: "is_Conflict (createSession joined ''r1'' ''bob'' ''c3'')"
    using 2 createSession_outcomes [of joined "''r1''" "''bob''" "''c3''"] by (elim conjE) simp
  have c: "is_Conflict (createSession joined ''r1'' ''carol'' ''c3'')"
    using 3 createSession_outcomes [of joined "''r1''" "''carol''" "''c3''"] by (elim conjE) simp
  have d: "\<exists>session s'. createSession demo ''r1'' ''bob'' ''c1'' = Inr (session, s')
      \<and> session_id session = ''c1''
      \<and> hget (k_connection s' ''c1'') ''room'' = Some ''r1''
      \<and> hget (k_connection s' ''c1'') ''owner'' = Some ''bob''
      \<and> hget (occupancy s' ''r1'') ''bob'' = Some ''c1''"
    using 4 createSession_outcomes [of demo "''r1''" "''bob''" "''c1''"] by (elim conjE) simp
  from a b c d show ?thesis by (intro conjI)
qed

subsection \<open>getSession\<close>

text \<open>
  The calls keep every user record under its own id; so do other clients, as long as
  they are calls of this program.
\<close>

lemma createUser_keyed:
  "user_keyed s \<Longrightarrow> user_keyed (snd (Store_createUser s name id' created))"
  by (simp add: user_keyed_def Store_createUser_def createUser_def hmset_def hset_def hget_def update_conv')

lemma perform_users: "k_user (perform s c) = k_user s"
  by (cases c) (auto simp: createSession_def createSession_write_def deleteSession_def Let_def
      split: sum.splits if_splits)

lemma perform_all_keyed: "user_keyed s \<Longrightarrow> user_keyed (perform_all s calls)"
  unfolding perform_all_def
  by (induction calls arbitrary: s) (simp_all add: user_keyed_def perform_users)

lemma ConnectedStore_updateUser_Inr:
  assumes "ConnectedStore_updateUser others touched s id' name = Inr s'"
  shows "k_user s' = k_user (others s) \<or>
         (k_user (others s) id' = k_user s id' \<and> k_user s id' \<noteq> [] \<and>
          k_user s' = (k_user (others s))(id' := hset (k_user s id') ''name'' name))"
proof (cases "touched \<or> k_user (others s) id' \<noteq> k_user s id'")
  case True
  with assms have "s' = others s"
    by (simp add: ConnectedStore_updateUser_def is_null_def exec_hset_def Let_def split: if_splits)
  then show ?thesis by simp
next
  case False
  with assms have "k_user s id' \<noteq> []"
    and "s' = (others s)\<lparr>k_user := (k_user (others s))(id' := hset (k_user s id') ''name'' name)\<rparr>"
    by (simp_all add: ConnectedStore_updateUser_def is_null_def exec_hset_def exists_def Let_def
        split: if_splits)
  with False show ?thesis by simp
qed

lemma updateUser_keyed:
  assumes "user_keyed s" and "user_keyed (others s)"
    and "Store_updateUser others touched s id' name = Inr (user, s')"
  shows "user_keyed s'"
proof -
  from assms(3) have "ConnectedStore_updateUser others touched s id' name = Inr s'"
    by (simp add: Store_updateUser_def split: sum.splits option.splits)
  then consider "k_user s' = k_user (others s)"
    | "k_user s id' \<noteq> []"
      and "k_user s' = (k_user (others s))(id' := hset (k_user s id') ''name'' name)"
    using ConnectedStore_updateUser_Inr by blast
  then show ?thesis
  proof cases
    case 1
    with assms(2) show ?thesis by (simp add: user_keyed_def)
  next
    case 2
    from assms(1) 2(1) have "hget (k_user s id') ''id'' = Some id'"
      unfolding user_keyed_def by blast
    then have "hget (hset (k_user s id') ''name'' name) ''id'' = Some id'"
      by (simp add: hget_hset_other)
    with assms(2) 2(2) show ?thesis by (simp add: user_keyed_def)
  qed
qed

lemma keyed_owner:
  "user_keyed s \<Longrightarrow> k_user s u = [] \<or> hget (k_user s u) ''id'' = Some u"
  by (simp add: user_keyed_def)

lemma demo_keyed: "user_keyed demo"
  by (simp add: user_keyed_def demo_def hget_def)

text \<open>
  C3. Let the record of a connection exist, and let the occupancy map of its room hold
  no entry of its owner that equals its id. Then \<^verbatim>\<open>getSession\<close> gives absent. The lookup
  in the map is made with the id that the owner's user record carries; the second
  assumption is that this record, if there is one, is stored under its own id, as
  \<^verbatim>\<open>user_keyed\<close> has it for all records.
\<close>

theorem getSession_superseded:
  assumes "hgetall (k_connection s id') \<noteq> []"
    and "k_user s (js_str (hget (k_connection s id') ''owner'')) = []
         \<or> hget (k_user s (js_str (hget (k_connection s id') ''owner''))) ''id''
             = Some (js_str (hget (k_connection s id') ''owner''))"
    and "hget (k_room_connections s (js_str (hget (k_connection s id') ''room'')))
           (js_str (hget (k_connection s id') ''owner'')) \<noteq> Some id'"
  shows "getSession s id' = None"
  using assms
  by (auto simp: getSession_def getUser_def hgetall_def Let_def js_str_def split: option.splits)

theorem getSession_superseded_witness:
  "hgetall (k_connection superseded ''c1'') = [(''room'', ''r1''), (''owner'', ''bob'')] \<and>
   hget (occupancy superseded ''r1'') ''bob'' = Some ''c2'' \<and>
   getSession superseded ''c1'' = None"
proof -
  have 1: "hgetall (k_connection superseded ''c1'') \<noteq> []"
    by (simp add: superseded_conn hgetall_def)
  have 2: "k_user superseded (js_str (hget (k_connection superseded ''c1'') ''owner'')) = []
         \<or> hget (k_user superseded (js_str (hget (k_connection superseded ''c1'') ''owner''))) ''id''
             = Some (js_str (hget (k_connection superseded ''c1'') ''owner''))"
    by (simp add: superseded_conn superseded_user demo_def store_defs)
  have 3: "hget (k_room_connections superseded (js_str (hget (k_connection superseded ''c1'') ''room'')))
           (js_str (hget (k_connection superseded ''c1'') ''owner'')) \<noteq> Some ''c1''"
    by (simp add: superseded_conn superseded_occ store_defs)
  from getSession_superseded [OF 1 2 3] show ?thesis
    by (simp add: superseded_conn superseded_occ occupancy_def store_defs)
qed

text \<open>
  C9. When the owner of a connection has no user record, \<^verbatim>\<open>getSession\<close> gives absent,
  whatever the connection record and the occupancy map hold. In the example the record
  is there and the map still links Bob to it.
\<close>

theorem getSession_owner_gone:
  assumes "hgetall (k_user s (js_str (hget (k_connection s id') ''owner''))) = []"
  shows "getSession s id' = None"
  using assms
  by (auto simp: getSession_def getUser_def hgetall_def Let_def split: option.splits)

theorem getSession_owner_gone_witness:
  "hgetall (k_connection bob_expired ''c1'') = [(''room'', ''r1''), (''owner'', ''bob'')] \<and>
   hget (occupancy bob_expired ''r1'') ''bob'' = Some ''c1'' \<and>
   hgetall (k_user bob_expired ''bob'') = [] \<and>
   getSession bob_expired ''c1'' = None"
proof -
  have 1: "hgetall (k_user bob_expired (js_str (hget (k_connection bob_expired ''c1'') ''owner''))) = []"
    by (simp add: bob_expired_def joined_conn store_defs)
  from getSession_owner_gone [OF 1] show ?thesis
    by (simp add: bob_expired_def joined_conn joined_occ occupancy_def store_defs)
qed

subsection \<open>deleteSession\<close>

text \<open>
  C5. \<^verbatim>\<open>deleteSession\<close> fails with NotFound when the connection record is absent, and
  with no other error. When the record names a room and an owner the call succeeds,
  whether the owner's entry in the occupancy map equals the id or not. When it succeeds,
  the connection record and the signal stream of the connection are gone; the owner's
  entry has been taken out of the occupancy map if it was equal to the id, and the map is
  as it was if not.
\<close>

theorem deleteSession_outcomes:
  "(hgetall (k_connection s id') = [] \<longrightarrow>
      deleteSession s id' = Inl (NotFound ''Connection not found'')) \<and>
   (\<forall>e. deleteSession s id' = Inl e \<longrightarrow> e = NotFound ''Connection not found'') \<and>
   (\<not> falsy (hget (k_connection s id') ''room'') \<and> \<not> falsy (hget (k_connection s id') ''owner'')
      \<longrightarrow> (\<exists>s'. deleteSession s id' = Inr s')) \<and>
   (\<forall>s'. deleteSession s id' = Inr s' \<longrightarrow>
      k_connection s' id' = [] \<and> k_connection_signal s' id' = [] \<and>
      (let room = js_str (hget (k_connection s id') ''room'');
           owner = js_str (hget (k_connection s id') ''owner'')
       in if hget (occupancy s room) owner = Some id'
          then k_room_connections s' = (k_room_connections s)(room := hdel (occupancy s room) owner)
          else k_room_connections s' = k_room_connections s))"
  by (auto simp: deleteSession_def hgetall_def occupancy_def Let_def falsy_def hget_def
      split: if_splits)

theorem deleteSession_outcomes_witness:
  "deleteSession demo ''c1'' = Inl (NotFound ''Connection not found'') \<and>
   (\<exists>s'. deleteSession joined ''c1'' = Inr s' \<and> k_connection s' ''c1'' = [] \<and>
         k_connection_signal s' ''c1'' = [] \<and> occupancy s' ''r1'' = [(''alice'', ''c2'')]) \<and>
   hget (occupancy superseded ''r1'') ''bob'' \<noteq> Some ''c1'' \<and>
   (\<exists>s'. deleteSession superseded ''c1'' = Inr s' \<and> k_connection s' ''c1'' = [] \<and>
         k_connection_signal s' ''c1'' = [] \<and> occupancy s' ''r1'' = [(''bob'', ''c2'')])"
proof -
  have 1: "hgetall (k_connection demo ''c1'') = []" by (simp add: demo_def hgetall_def)
  have j: "\<not> falsy (hget (k_connection joined ''c1'') ''room'')
         \<and> \<not> falsy (hget (k_connection joined ''c1'') ''owner'')"
    by (simp add: joined_conn falsy_def hget_def)
  have p: "\<not> falsy (hget (k_connection superseded ''c1'') ''room'')
         \<and> \<not> falsy (hget (k_connection superseded ''c1'') ''owner'')"
    by (simp add: superseded_conn falsy_def hget_def)
  from deleteSession_outcomes [of demo "''c1''"] 1
  have a: "deleteSession demo ''c1'' = Inl (NotFound ''Connection not found'')" by blast
  from deleteSession_outcomes [of joined "''c1''"] j
  obtain s1 where 2: "deleteSession joined ''c1'' = Inr s1" by blast
  from deleteSession_outcomes [of superseded "''c1''"] p
  obtain s2 where 3: "deleteSession superseded ''c1'' = Inr s2" by blast
  from deleteSession_outcomes [of joined "''c1''"] 2
  have b: "k_connection s1 ''c1'' = [] \<and> k_connection_signal s1 ''c1'' = []
         \<and> occupancy s1 ''r1'' = [(''alice'', ''c2'')]"
    by (simp add: joined_conn joined_occ occupancy_def store_defs Let_def)
  from deleteSession_outcomes [of superseded "''c1''"] 3
  have c: "k_connection s2 ''c1'' = [] \<and> k_connection_signal s2 ''c1'' = []
         \<and> occupancy s2 ''r1'' = [(''bob'', ''c2'')]"
    by (simp add: superseded_conn superseded_occ occupancy_def store_defs Let_def)
  have d: "hget (occupancy superseded ''r1'') ''bob'' \<noteq> Some ''c1''"
    by (simp add: superseded_occ occupancy_def store_defs)
  from a b c d 2 3 show ?thesis by blast
qed

text \<open>
  C6. Whenever \<^verbatim>\<open>deleteSession(id)\<close> succeeds, \<^verbatim>\<open>getSession(id)\<close> on the store it leaves
  gives absent.
\<close>

theorem deleteSession_then_getSession:
  "deleteSession s id' = Inr s' \<Longrightarrow> getSession s' id' = None"
  by (auto simp: deleteSession_def getSession_def hgetall_def Let_def split: if_splits)

theorem deleteSession_then_getSession_witness:
  "\<exists>s'. deleteSession joined ''c1'' = Inr s' \<and> getSession s' ''c1'' = None"
proof -
  obtain s' where h: "deleteSession joined ''c1'' = Inr s'"
    by (simp add: deleteSession_def joined_conn store_defs Let_def)
  from deleteSession_then_getSession [OF h] h show ?thesis by blast
qed

subsection \<open>updateUser\<close>

text \<open>The test of \<^verbatim>\<open>result\<close> in \<^verbatim>\<open>ConnectedStore.updateUser\<close> never throws.\<close>

lemma ConnectedStore_updateUser_no_Conflict:
  "ConnectedStore_updateUser others touched s id' name \<noteq> Inl (Conflict m)"
  by (simp add: ConnectedStore_updateUser_def is_null_def Let_def)

text \<open>With nobody else at the store the name is written and the user is returned.\<close>

lemma updateUser_alone:
  assumes "exists (k_user s id')"
  shows "\<exists>user s'. Store_updateUser nothing False s id' name = Inr (user, s')
           \<and> user_name user = Some name
           \<and> k_user s' = (k_user s)(id' := hset (k_user s id') ''name'' name)"
  using assms
  by (simp add: Store_updateUser_def ConnectedStore_updateUser_def is_null_def exec_hset_def
      nothing_def exists_def getUser_def hgetall_def Let_def hset_def hget_def update_conv')

text \<open>
  C7. \<^verbatim>\<open>Store.updateUser\<close> fails with NotFound when the user record is absent at the
  check. When the record is there at the check and gone at the commit, it fails with
  Conflict: the transaction is discarded, and the Conflict is thrown by
  \<^verbatim>\<open>Store.updateUser\<close> when it reads the user back.
\<close>

theorem updateUser_errors:
  "(\<not> exists (k_user s id') \<longrightarrow>
      Store_updateUser others touched s id' name = Inl (NotFound ''User not found'')) \<and>
   (exists (k_user s id') \<and> \<not> exists (k_user (others s) id') \<longrightarrow>
      Store_updateUser others touched s id' name = Inl (Conflict ''User no longer exists.''))"
  by (auto simp: Store_updateUser_def ConnectedStore_updateUser_def is_null_def exec_hset_def
      exists_def getUser_def hgetall_def Let_def)

theorem updateUser_errors_witness:
  "Store_updateUser nothing False demo ''carol'' ''Caroline'' = Inl (NotFound ''User not found'') \<and>
   exists (k_user demo ''bob'') \<and> \<not> exists (k_user (bob_expires demo) ''bob'') \<and>
   Store_updateUser bob_expires True demo ''bob'' ''Robert''
     = Inl (Conflict ''User no longer exists.'')"
proof -
  have 1: "\<not> exists (k_user demo ''carol'')" by (simp add: demo_def exists_def)
  have 2: "exists (k_user demo ''bob'') \<and> \<not> exists (k_user (bob_expires demo) ''bob'')"
    by (simp add: demo_def exists_def bob_expires_def)
  from 1 2 updateUser_errors [of demo "''carol''" nothing False "''Caroline''"]
    updateUser_errors [of demo "''bob''" bob_expires True "''Robert''"]
  show ?thesis by blast
qed

subsection \<open>The relay loop\<close>

lemma cached_getUser_vars [simp]:
  "peer (snd (cached_getUser s f u)) = peer f"
  "sent (snd (cached_getUser s f u)) = sent f"
  "messageCursor (snd (cached_getUser s f u)) = messageCursor f"
  "peerCursor (snd (cached_getUser s f u)) = peerCursor f"
  by (simp_all add: cached_getUser_def Let_def split: option.splits)

lemma cached_getUser_cursor [simp]:
  "fst (cached_getUser s (f\<lparr>messageCursor := c\<rparr>) u) = fst (cached_getUser s f u)"
  "fst (cached_getUser s (f\<lparr>peerCursor := c\<rparr>) u) = fst (cached_getUser s f u)"
  by (simp_all add: cached_getUser_def Let_def split: option.splits)

lemma relay_peer:
  "peer (relay actor s f (Inl m)) =
     (if is_Join m \<and> msg_user m \<noteq> actor then Some (msg_session m)
      else if is_Leave m \<and> peer f = Some (msg_session m) then None
      else peer f)"
  by (cases "cached_getUser s f (msg_user m)")
     (auto simp: relay_def send_def Let_def split: option.splits dest: arg_cong [where f = "\<lambda>p. peer (snd p)"])

lemma relay_sent:
  "sent (relay actor s f (Inl m)) =
     (case fst (cached_getUser s f (msg_user m)) of
        None \<Rightarrow> sent f
      | Some u \<Rightarrow> sent f @ [Inl (with_user m u)])"
  by (cases "cached_getUser s f (msg_user m)")
     (auto simp: relay_def send_def Let_def split: option.splits dest: arg_cong [where f = "\<lambda>p. sent (snd p)"])

lemma consume_message:
  assumes "find_data (snd entry) = Some v" and "parse v = Some (Inl m)"
  obtains f1 where "consume parse actor s k f entry = relay actor s f1 (Inl m)"
    and "peer f1 = peer f" and "sent f1 = sent f"
    and "fst (cached_getUser s f1 (msg_user m)) = fst (cached_getUser s f (msg_user m))"
proof
  let ?f1 = "if prefix ''room:'' k then f\<lparr>messageCursor := fst entry\<rparr>
             else if prefix ''connection:'' k then f\<lparr>peerCursor := fst entry\<rparr> else f"
  show "consume parse actor s k f entry = relay actor s ?f1 (Inl m)"
    using assms by (simp add: consume_def Let_def)
  show "peer ?f1 = peer f" and "sent ?f1 = sent f" by simp_all
  show "fst (cached_getUser s ?f1 (msg_user m)) = fst (cached_getUser s f (msg_user m))"
    by simp
qed

lemma resolves_iff:
  "resolves s f u = (case users f u of None \<Rightarrow> hgetall (k_user s u) \<noteq> [] | Some c \<Rightarrow> c \<noteq> None)"
  by (simp add: resolves_def cached_getUser_def getUser_def Let_def split: option.splits)

text \<open>
  C8. Take an entry of the relay loop whose data is a Join, Leave or Chat. If it is a
  Join of a user other than the actor, the peer becomes the entry's session. If it is a
  Leave whose session is the peer, the peer becomes unknown. In every other case the
  peer stays what it was.
\<close>

theorem relay_peer_handoff:
  assumes "find_data (snd entry) = Some v" and "parse v = Some (Inl m)"
  shows "(is_Join m \<and> msg_user m \<noteq> actor
            \<longrightarrow> peer (consume parse actor s k f entry) = Some (msg_session m)) \<and>
         (is_Leave m \<and> peer f = Some (msg_session m)
            \<longrightarrow> peer (consume parse actor s k f entry) = None) \<and>
         (\<not> (is_Join m \<and> msg_user m \<noteq> actor) \<and> \<not> (is_Leave m \<and> peer f = Some (msg_session m))
            \<longrightarrow> peer (consume parse actor s k f entry) = peer f)"
proof -
  from assms obtain f1 where c: "consume parse actor s k f entry = relay actor s f1 (Inl m)"
    and p: "peer f1 = peer f"
    by (rule consume_message)
  have "\<not> (is_Join m \<and> is_Leave m)" by (cases m) simp_all
  then show ?thesis unfolding c relay_peer p by auto
qed

theorem relay_peer_handoff_witness:
  "peer (consume parse_demo ''bob'' joined ''room:r1:messages'' bobs_forwarder
           (entry_demo ''join by carol'')) = Some ''c3'' \<and>
   peer (consume parse_demo ''bob'' joined ''room:r1:messages'' bobs_forwarder
           (entry_demo ''leave by alice'')) = None \<and>
   peer (consume parse_demo ''bob'' joined ''room:r1:messages'' bobs_forwarder
           (entry_demo ''chat by alice'')) = peer bobs_forwarder"
proof -
  have d: "find_data (snd (entry_demo v)) = Some v" for v by (simp add: entry_demo_def)
  have 1: "parse_demo ''join by carol'' = Some (Inl (Join 10 ''carol'' ''c3'' guest))"
    and 2: "parse_demo ''leave by alice'' = Some (Inl (Leave 11 ''alice'' ''c2''))"
    and 3: "parse_demo ''chat by alice'' = Some (Inl (Chat 12 ''alice'' ''c2'' ''hello''))"
    by (simp_all add: parse_demo_def)
  from relay_peer_handoff [where parse = parse_demo and actor = "''bob''" and s = joined
      and k = "''room:r1:messages''" and f = bobs_forwarder, OF d 1]
    relay_peer_handoff [where parse = parse_demo and actor = "''bob''" and s = joined
      and k = "''room:r1:messages''" and f = bobs_forwarder, OF d 2]
    relay_peer_handoff [where parse = parse_demo and actor = "''bob''" and s = joined
      and k = "''room:r1:messages''" and f = bobs_forwarder, OF d 3]
  show ?thesis by (simp add: bobs_forwarder_def)
qed

text \<open>
  C10. Take an entry whose data is a Join, Leave or Chat of a user that the forwarder
  does not resolve: its cache holds \<^verbatim>\<open>null\<close> for the user, or holds nothing and the store
  has no record. Nothing is sent for the entry, and the peer changes as it does for any
  such entry.
\<close>

theorem relay_unresolved_user:
  assumes "find_data (snd entry) = Some v" and "parse v = Some (Inl m)"
    and "\<not> resolves s f (msg_user m)"
  shows "sent (consume parse actor s k f entry) = sent f \<and>
         peer (consume parse actor s k f entry) =
           (if is_Join m \<and> msg_user m \<noteq> actor then Some (msg_session m)
            else if is_Leave m \<and> peer f = Some (msg_session m) then None
            else peer f)"
proof -
  from assms(1,2) obtain f1 where c: "consume parse actor s k f entry = relay actor s f1 (Inl m)"
    and p: "peer f1 = peer f" and st: "sent f1 = sent f"
    and r: "fst (cached_getUser s f1 (msg_user m)) = fst (cached_getUser s f (msg_user m))"
    by (rule consume_message)
  from assms(3) have n: "fst (cached_getUser s f (msg_user m)) = None"
    by (simp add: resolves_def)
  show ?thesis unfolding c relay_peer relay_sent p st r n by simp
qed

theorem relay_unresolved_user_witness:
  "\<not> resolves joined bobs_forwarder ''carol'' \<and>
   sent (consume parse_demo ''bob'' joined ''room:r1:messages'' bobs_forwarder
           (entry_demo ''join by carol'')) = [] \<and>
   peer (consume parse_demo ''bob'' joined ''room:r1:messages'' bobs_forwarder
           (entry_demo ''join by carol'')) = Some ''c3''"
proof -
  have d: "find_data (snd (entry_demo ''join by carol'')) = Some ''join by carol''"
    by (simp add: entry_demo_def)
  have 1: "parse_demo ''join by carol'' = Some (Inl (Join 10 ''carol'' ''c3'' guest))"
    by (simp add: parse_demo_def)
  have r: "\<not> resolves joined bobs_forwarder ''carol''"
    by (simp add: resolves_iff bobs_forwarder_def joined_user demo_def hgetall_def)
  then have 2: "\<not> resolves joined bobs_forwarder (msg_user (Join 10 ''carol'' ''c3'' guest))" by simp
  from r relay_unresolved_user [where parse = parse_demo and actor = "''bob''"
      and k = "''room:r1:messages''", OF d 1 2]
  show ?thesis by (simp add: bobs_forwarder_def)
qed

end
